theory Spec2Isabelle
  imports Complex_Main "HOL-Library.List_Lexorder" "HOL-Library.Char_ord"
begin

section \<open>Values, errors\<close>

text \<open>
  \<^verbatim>\<open>src/data_prep.py\<close> is a script over pandas data frames.  A cell of a frame is a
  missing value (\<^verbatim>\<open>NaN\<close> or \<^verbatim>\<open>None\<close>), a number, or a text.  Numbers are exact
  rationals here: rounding to binary floating point is not part of the model.
\<close>

datatype cell = NA | Num rat | Str string

text \<open>
  The exceptions that end the run: \<^verbatim>\<open>ValueError: Index has duplicate keys\<close> of
  \<^verbatim>\<open>set_index(verify_integrity=True)\<close>, \<^verbatim>\<open>ValueError: columns overlap but no suffix
  specified\<close> of \<^verbatim>\<open>DataFrame.join\<close>, \<^verbatim>\<open>ValueError: Unable to parse string\<close> of
  \<^verbatim>\<open>pd.to_numeric\<close>, and \<^verbatim>\<open>KeyError\<close> for a column that is not there.
\<close>

datatype error = DuplicateKeys | ColumnsOverlap | UnableToParse | KeyError

text \<open>The script is a sequence of statements: the first exception ends it.\<close>

definition and_then :: "error + 'a \<Rightarrow> ('a \<Rightarrow> error + 'b) \<Rightarrow> error + 'b" where
  "and_then r f = (case r of Inl e \<Rightarrow> Inl e | Inr x \<Rightarrow> f x)"

section \<open>Loading the tables and selecting records\<close>

text \<open>
  A frame with its index set: the column names, and for every row its key and the
  values of the columns, in row order.  A table as read from its file is given in the
  same shape, every row with the values of its key columns; \<^verbatim>\<open>set_index\<close> with
  \<^verbatim>\<open>verify_integrity=True\<close> raises when two rows have the same key.  The key of the
  base table and of the ADAS scores is \<^verbatim>\<open>(RID, VISCODE)\<close>, the key of the other
  tables is \<^verbatim>\<open>RID\<close>.
\<close>

type_synonym visit_key = "nat \<times> string"

record 'k frame =
  columns :: "string list"
  rows :: "('k \<times> cell list) list"

definition set_index :: "'k frame \<Rightarrow> error + 'k frame" where
  "set_index df = (if distinct (map fst (rows df)) then Inr df else Inl DuplicateKeys)"

text \<open>
  ADASSCORES: after the index is set, the columns at positions 5 to 19 are kept and
  their names get the prefix \<^verbatim>\<open>ADAS_\<close>.
\<close>

definition load_adas :: "visit_key frame \<Rightarrow> error + visit_key frame" where
  "load_adas raw =
     and_then (set_index raw) (\<lambda>df.
       Inr \<lparr>columns = map (\<lambda>c. ''ADAS_'' @ c) (take 15 (drop 5 (columns df))),
            rows = map (\<lambda>(k, vs). (k, take 15 (drop 5 vs))) (rows df)\<rparr>)"

text \<open>
  PTDEMOG: a row is given by its \<^verbatim>\<open>RID\<close>, its \<^verbatim>\<open>USERDATE\<close> (possibly missing; any
  linearly ordered type of timestamps) and the values of the eight columns that are
  kept.
  \<^verbatim>\<open>
  g = data_demo.sort_values(['RID', 'USERDATE']).groupby(['RID'])
  data_demo['RNK'] = g['USERDATE'].rank(ascending=False)
  data_demo = data_demo.loc[data_demo['RNK'] == 1, cols]
  data_demo.set_index('RID', inplace=True, verify_integrity=True)
  \<close>
  \<^verbatim>\<open>rank\<close> is called with its default method \<^verbatim>\<open>average\<close>: within the rows of one
  \<^verbatim>\<open>RID\<close>, a timestamp with \<open>a\<close> later timestamps and \<open>b\<close> rows equal to it (itself
  included) has the mean of the positions \<open>a + 1, \<dots>, a + b\<close> as its rank; a missing
  timestamp has no rank.  The ranks are aligned with the rows by their labels, so the
  selection keeps the row order of the file.
\<close>

type_synonym 't demo_row = "nat \<times> 't option \<times> cell list"

definition group_dates :: "'t demo_row list \<Rightarrow> nat \<Rightarrow> 't list" where
  "group_dates tbl rid = [u. (rid', Some u, vs) \<leftarrow> tbl, rid' = rid]"

definition rank_desc :: "('t::linorder) demo_row list \<Rightarrow> 't demo_row \<Rightarrow> rat option" where
  "rank_desc tbl r =
     (case r of (rid, d, vs) \<Rightarrow>
        (case d of
           None \<Rightarrow> None
         | Some t \<Rightarrow>
             (let g = group_dates tbl rid
              in Some (of_nat (length (filter (\<lambda>u. t < u) g)) +
                       (of_nat (length (filter (\<lambda>u. u = t) g)) + 1) / 2))))"

definition demo_cols :: "string list" where
  "demo_cols = [''PTHAND'', ''PTWORK'', ''PTWRECNT'', ''PTNOTRT'', ''PTRTYR'', ''PTHOME'',
                ''PTTLANG'', ''PTPLANG'']"

definition latest_records :: "('t::linorder) demo_row list \<Rightarrow> (nat \<times> cell list) list" where
  "latest_records tbl = [(rid, vs). (rid, d, vs) \<leftarrow> tbl, rank_desc tbl (rid, d, vs) = Some 1]"

definition load_demo :: "('t::linorder) demo_row list \<Rightarrow> error + nat frame" where
  "load_demo tbl = set_index \<lparr>columns = demo_cols, rows = latest_records tbl\<rparr>"

text \<open>
  FHQ: a row is given by its \<^verbatim>\<open>RID\<close>, its \<^verbatim>\<open>VISCODE\<close> and the values of the six
  columns that are kept; only the screening rows (\<^verbatim>\<open>VISCODE == "sc"\<close>) are kept.
\<close>

type_synonym fam_row = "nat \<times> string \<times> cell list"

definition fam_cols :: "string list" where
  "fam_cols = [''FHQPROV'', ''FHQMOM'', ''FHQMOMAD'', ''FHQDAD'', ''FHQDADAD'', ''FHQSIB'']"

definition screening_records :: "fam_row list \<Rightarrow> (nat \<times> cell list) list" where
  "screening_records tbl = [(rid, vs). (rid, viscode, vs) \<leftarrow> tbl, viscode = ''sc'']"

definition load_fam :: "fam_row list \<Rightarrow> error + nat frame" where
  "load_fam tbl = set_index \<lparr>columns = fam_cols, rows = screening_records tbl\<rparr>"

text \<open>TOMM40: a row is given by its \<^verbatim>\<open>RID\<close> and the values of the two columns kept.\<close>

definition load_tom :: "(nat \<times> cell list) list \<Rightarrow> error + nat frame" where
  "load_tom tbl = set_index \<lparr>columns = [''TOMM40_A1'', ''TOMM40_A2''], rows = tbl\<rparr>"

section \<open>Left joins\<close>

text \<open>
  The rows of a left join, as \<^verbatim>\<open>pd.merge(how="left")\<close> builds them: the rows of the left
  frame in their order, each once for every row of the right frame with the same key
  (\<open>on\<close> maps the left key to the key the right frame is indexed by), or once with
  missing values in the \<open>w\<close> right columns when no right row has that key.
\<close>

definition left_rows ::
  "('k \<Rightarrow> 'j) \<Rightarrow> nat \<Rightarrow> ('k \<times> cell list) list \<Rightarrow> ('j \<times> cell list) list \<Rightarrow>
   ('k \<times> cell list) list" where
  "left_rows on w ls rs =
     concat (map (\<lambda>(k, vs).
                    case filter (\<lambda>r. fst r = on k) rs of
                      [] \<Rightarrow> [(k, vs @ replicate w NA)]
                    | m # ms \<Rightarrow> map (\<lambda>r. (k, vs @ snd r)) (m # ms)) ls)"

text \<open>
  \<^verbatim>\<open>pd.merge(data, data_adas, how="left", left_index=True, right_index=True)\<close>: both
  frames have the key \<^verbatim>\<open>(RID, VISCODE)\<close>; a column name that both frames have gets the
  suffixes \<^verbatim>\<open>_x\<close> and \<^verbatim>\<open>_y\<close>.
\<close>

definition merge_left :: "'k frame \<Rightarrow> 'k frame \<Rightarrow> 'k frame" where
  "merge_left data other =
     \<lparr>columns = map (\<lambda>c. if c \<in> set (columns other) then c @ ''_x'' else c) (columns data) @
                 map (\<lambda>c. if c \<in> set (columns data) then c @ ''_y'' else c) (columns other),
      rows = left_rows id (length (columns other)) (rows data) (rows other)\<rparr>"

text \<open>
  \<^verbatim>\<open>data.join(other, how="left")\<close>: \<open>other\<close> is indexed by \<^verbatim>\<open>RID\<close>, the first level of
  the index of \<open>data\<close>; a column name that both frames have raises.
\<close>

definition join_left :: "visit_key frame \<Rightarrow> nat frame \<Rightarrow> error + visit_key frame" where
  "join_left data other =
     (if set (columns data) \<inter> set (columns other) \<noteq> {} then Inl ColumnsOverlap
      else Inr \<lparr>columns = columns data @ columns other,
                rows = left_rows fst (length (columns other)) (rows data) (rows other)\<rparr>)"

text \<open>The first part of the script, up to the last join (lines 13 to 121).\<close>

definition assemble ::
  "visit_key frame \<Rightarrow> visit_key frame \<Rightarrow> ('t::linorder) demo_row list \<Rightarrow> fam_row list \<Rightarrow>
   (nat \<times> cell list) list \<Rightarrow> error + visit_key frame" where
  "assemble tadpole adasscores ptdemog fhq tomm40 =
     and_then (set_index tadpole) (\<lambda>data.
     and_then (load_adas adasscores) (\<lambda>data_adas.
     let data = merge_left data data_adas in
     and_then (load_demo ptdemog) (\<lambda>data_demo.
     and_then (join_left data data_demo) (\<lambda>data.
     and_then (load_fam fhq) (\<lambda>data_fam.
     and_then (join_left data data_fam) (\<lambda>data.
     and_then (load_tom tomm40) (\<lambda>data_tom.
     join_left data data_tom)))))))"

text \<open>
  Any sequence of the two kinds of join onto the base table: an auxiliary frame is
  keyed by visit and merged, or keyed by subject and joined.
\<close>

datatype aux = ByVisit "visit_key frame" | BySubject "nat frame"

fun join_aux :: "visit_key frame \<Rightarrow> aux \<Rightarrow> error + visit_key frame" where
  "join_aux data (ByVisit other) = Inr (merge_left data other)"
| "join_aux data (BySubject other) = join_left data other"

fun join_all :: "visit_key frame \<Rightarrow> aux list \<Rightarrow> error + visit_key frame" where
  "join_all data [] = Inr data"
| "join_all data (a # as) = and_then (join_aux data a) (\<lambda>data. join_all data as)"

text \<open>
  For the statement of the join properties: the keys of an auxiliary frame are unique;
  a row key of the base table is matched by an auxiliary frame; the number of columns
  of an auxiliary frame; and the cells an auxiliary frame holds for a row key, missing
  values when it has no row for it.
\<close>

fun aux_unique :: "aux \<Rightarrow> bool" where
  "aux_unique (ByVisit other) = distinct (map fst (rows other))"
| "aux_unique (BySubject other) = distinct (map fst (rows other))"

fun aux_matched :: "aux \<Rightarrow> visit_key \<Rightarrow> bool" where
  "aux_matched (ByVisit other) k = (k \<in> fst ` set (rows other))"
| "aux_matched (BySubject other) k = (fst k \<in> fst ` set (rows other))"

fun aux_width :: "aux \<Rightarrow> nat" where
  "aux_width (ByVisit other) = length (columns other)"
| "aux_width (BySubject other) = length (columns other)"

fun aux_cells :: "aux \<Rightarrow> visit_key \<Rightarrow> cell list" where
  "aux_cells (ByVisit other) k =
     (case map_of (rows other) k of
        None \<Rightarrow> replicate (length (columns other)) NA
      | Some vs \<Rightarrow> vs)"
| "aux_cells (BySubject other) k =
     (case map_of (rows other) (fst k) of
        None \<Rightarrow> replicate (length (columns other)) NA
      | Some vs \<Rightarrow> vs)"

section \<open>Column registry and numeric cleaning\<close>

text \<open>
  A row of \<^verbatim>\<open>metadata_raw.csv\<close>, and the table of the second part of the script, held
  by columns: the name and the cells of every column.
\<close>

record meta =
  column_name :: string
  keep :: int
  numeric :: int
  categorical :: int
  data_type :: string

type_synonym table = "(string \<times> cell list) list"

text \<open>\<^verbatim>\<open>data[c]\<close> raises \<^verbatim>\<open>KeyError\<close> when there is no column \<open>c\<close>.\<close>

definition getitem :: "table \<Rightarrow> string \<Rightarrow> error + cell list" where
  "getitem data c = (case map_of data c of None \<Rightarrow> Inl KeyError | Some xs \<Rightarrow> Inr xs)"

text \<open>\<^verbatim>\<open>data[c] = xs\<close> replaces the column \<open>c\<close> where it stands, or appends it.\<close>

definition setitem :: "table \<Rightarrow> string \<Rightarrow> cell list \<Rightarrow> table" where
  "setitem data c xs =
     (if c \<in> fst ` set data then map (\<lambda>(n, ys). if n = c then (n, xs) else (n, ys)) data
      else data @ [(c, xs)])"

text \<open>\<^verbatim>\<open>data[cols]\<close>: the listed columns, in the order of the list.\<close>

fun select :: "table \<Rightarrow> string list \<Rightarrow> error + table" where
  "select data [] = Inr []"
| "select data (c # cs) =
     and_then (getitem data c) (\<lambda>xs.
     and_then (select data cs) (\<lambda>t. Inr ((c, xs) # t)))"

text \<open>
  \<^verbatim>\<open>Series.apply(f)\<close> calls \<open>f\<close> on the cells in order; an exception of \<open>f\<close> is
  not caught.
\<close>

fun apply_series :: "('a \<Rightarrow> error + 'b) \<Rightarrow> 'a list \<Rightarrow> error + 'b list" where
  "apply_series f [] = Inr []"
| "apply_series f (x # xs) =
     and_then (f x) (\<lambda>y.
     and_then (apply_series f xs) (\<lambda>ys. Inr (y # ys)))"

text \<open>
  \<^verbatim>\<open>str.replace(old, new)\<close>: all non-overlapping occurrences of \<open>old\<close>, scanned from
  the left, are replaced by \<open>new\<close>; with an empty \<open>old\<close>, \<open>new\<close> is put before every
  character and at the end.
\<close>

function replace :: "string \<Rightarrow> string \<Rightarrow> string \<Rightarrow> string" where
  "replace old new [] = (if old = [] then new else [])"
| "replace old new (c # cs) =
     (if old = [] then new @ c # replace old new cs
      else if take (length old) (c # cs) = old
           then new @ replace old new (drop (length old) (c # cs))
      else c # replace old new cs)"
  by pat_completeness auto
termination
  by (relation "measure (\<lambda>(old, new, s). length s)") auto

text \<open>
  \<^verbatim>\<open>data.replace(' ', np.nan, inplace=True)\<close>: a cell that is equal to the text of one
  space becomes missing; every other cell is kept.
\<close>

definition replace_blank :: "cell \<Rightarrow> cell" where
  "replace_blank v = (if v = Str '' '' then NA else v)"

text \<open>
  \<^verbatim>\<open>Series.str.replace(old, new)\<close> on a column of texts (the three columns it is used
  on are of dtype \<^verbatim>\<open>object\<close>): a cell that is not a text becomes missing.
  \<^verbatim>\<open>data[c] = data[c].str.replace("<", "").str.replace(">", "")\<close>
\<close>

fun str_replace :: "string \<Rightarrow> string \<Rightarrow> cell \<Rightarrow> cell" where
  "str_replace old new (Str s) = Str (replace old new s)"
| "str_replace old new _ = NA"

definition strip_censor :: "cell \<Rightarrow> cell" where
  "strip_censor v = str_replace ''>'' [] (str_replace ''<'' [] v)"

definition censored_cols :: "string list" where
  "censored_cols = [''ABETA_UPENNBIOMK9_04_19_17'', ''TAU_UPENNBIOMK9_04_19_17'',
                    ''PTAU_UPENNBIOMK9_04_19_17'']"

text \<open>
  The text-to-number conversion of \<^verbatim>\<open>pd.to_numeric\<close> (pandas' \<^verbatim>\<open>xstrtod\<close>): white space,
  an optional sign, digits with an optional decimal point (at least one digit in all),
  an optional exponent (\<^verbatim>\<open>e\<close> or \<^verbatim>\<open>E\<close>, an optional sign, at least one digit), white
  space, and nothing else.  The value is the exact rational.  The spellings of infinity
  and of not-a-number, which the library also reads, have no rational value and are
  outside the model.
\<close>

definition isspace :: "char \<Rightarrow> bool" where
  "isspace c = (c \<in> set [CHR '' '', CHR 0x09, CHR 0x0A, CHR 0x0B, CHR 0x0C, CHR 0x0D])"

definition isdigit :: "char \<Rightarrow> bool" where
  "isdigit c = (c \<in> set ''0123456789'')"

definition digit_value :: "char \<Rightarrow> nat" where
  "digit_value c =
     (case map_of (zip ''0123456789'' [0, 1, 2, 3, 4, 5, 6, 7, 8, 9]) c of
        Some d \<Rightarrow> d
      | None \<Rightarrow> 0)"

fun digits_value :: "nat \<Rightarrow> string \<Rightarrow> nat" where
  "digits_value acc [] = acc"
| "digits_value acc (c # cs) = digits_value (10 * acc + digit_value c) cs"

definition split_sign :: "string \<Rightarrow> bool \<times> string" where
  "split_sign s =
     (case s of
        [] \<Rightarrow> (False, s)
      | c # r \<Rightarrow> if c = CHR ''-'' then (True, r) else if c = CHR ''+'' then (False, r)
                 else (False, s))"

definition fraction :: "string \<Rightarrow> string \<times> string" where
  "fraction s =
     (case s of
        [] \<Rightarrow> ([], s)
      | c # r \<Rightarrow> if c = CHR ''.'' then (takeWhile isdigit r, dropWhile isdigit r)
                 else ([], s))"

definition exponent :: "string \<Rightarrow> int \<times> string" where
  "exponent s =
     (case s of
        [] \<Rightarrow> (0, s)
      | c # r \<Rightarrow>
          if c = CHR ''e'' \<or> c = CHR ''E'' then
            (let (neg, r1) = split_sign r; ds = takeWhile isdigit r1
             in if ds = [] then (0, s)
                else ((if neg then - int (digits_value 0 ds) else int (digits_value 0 ds)),
                      dropWhile isdigit r1))
          else (0, s))"

definition scale :: "rat \<Rightarrow> int \<Rightarrow> rat" where
  "scale m e = (if 0 \<le> e then m * 10 ^ nat e else m / 10 ^ nat (- e))"

definition parse_float :: "string \<Rightarrow> rat option" where
  "parse_float s =
     (let (neg, s1) = split_sign (dropWhile isspace s);
          ip = takeWhile isdigit s1;
          (fp, s3) = fraction (dropWhile isdigit s1);
          (ex, s4) = exponent s3;
          m = of_nat (digits_value 0 (ip @ fp))
      in if ip = [] \<and> fp = [] then None
         else if dropWhile isspace s4 \<noteq> [] then None
         else Some (scale (if neg then - m else m) (ex - int (length fp))))"

text \<open>
  \<^verbatim>\<open>pd.to_numeric(x, errors=...)\<close> on one cell.  A number and a missing value are
  returned as they are, the empty text is read as missing, any other text is parsed;
  a text that does not parse raises with \<^verbatim>\<open>errors='raise'\<close>, the default, and becomes
  missing with \<^verbatim>\<open>errors='coerce'\<close>.
\<close>

datatype errors_arg = Raise | Coerce

fun to_numeric :: "errors_arg \<Rightarrow> cell \<Rightarrow> error + cell" where
  "to_numeric errors NA = Inr NA"
| "to_numeric errors (Num x) = Inr (Num x)"
| "to_numeric errors (Str s) =
     (if s = [] then Inr NA
      else case parse_float s of
             Some x \<Rightarrow> Inr (Num x)
           | None \<Rightarrow> (case errors of Raise \<Rightarrow> Inl UnableToParse | Coerce \<Rightarrow> Inr NA))"

text \<open>
  \<^verbatim>\<open>
  for c in cols:
      data[c] = data[c].str.replace("<", "").str.replace(">", "")
  for c in numeric_cols:
      data[c] = data[c].apply(pd.to_numeric)
  \<close>
\<close>

fun strip_columns :: "string list \<Rightarrow> table \<Rightarrow> error + table" where
  "strip_columns [] data = Inr data"
| "strip_columns (c # cs) data =
     and_then (getitem data c) (\<lambda>xs. strip_columns cs (setitem data c (map strip_censor xs)))"

fun coerce_columns :: "string list \<Rightarrow> table \<Rightarrow> error + table" where
  "coerce_columns [] data = Inr data"
| "coerce_columns (c # cs) data =
     and_then (getitem data c) (\<lambda>xs.
     and_then (apply_series (to_numeric Raise) xs) (\<lambda>ys.
     coerce_columns cs (setitem data c ys)))"

definition numeric_cols :: "meta list \<Rightarrow> string list" where
  "numeric_cols data_meta =
     [column_name m. m \<leftarrow> data_meta, numeric m = 1 \<and> data_type m = ''object'']"

text \<open>
  The metadata filter and the cleaning of the numerical features (lines 129 to 159):
  the registry rows with \<^verbatim>\<open>keep == 1\<close> are kept, their columns selected, blanks
  replaced, the censoring marks stripped and the numeric text columns coerced.
\<close>

definition clean_numerical :: "meta list \<Rightarrow> table \<Rightarrow> error + table" where
  "clean_numerical metadata_raw joined =
     (let data_meta = filter (\<lambda>m. keep m = 1) metadata_raw in
      and_then (select joined (map column_name data_meta)) (\<lambda>data.
      let data = map (\<lambda>(c, xs). (c, map replace_blank xs)) data in
      and_then (strip_columns censored_cols data) (\<lambda>data.
      coerce_columns (numeric_cols data_meta) data)))"

text \<open>
  The retirement year, in both exports: the last four characters of the text of the
  cell, coerced.  \<open>render\<close> stands for Python's \<^verbatim>\<open>str\<close>.
  \<^verbatim>\<open>
  data['PTRTYR'] = data['PTRTYR'].apply(lambda x: str(x)[-4:])
  data['PTRTYR'] = data['PTRTYR'].apply(pd.to_numeric, errors='coerce')
  \<close>
\<close>

definition retirement_year :: "(cell \<Rightarrow> string) \<Rightarrow> cell \<Rightarrow> error + cell" where
  "retirement_year render x =
     to_numeric Coerce (Str (drop (length (render x) - 4) (render x)))"

section \<open>Cleaning of categorical text\<close>

text \<open>\<open>occurs old s\<close>: the text \<open>old\<close> is a substring of \<open>s\<close> (\<^verbatim>\<open>old in s\<close>).\<close>

fun occurs :: "string \<Rightarrow> string \<Rightarrow> bool" where
  "occurs old [] = (old = [])"
| "occurs old (c # cs) = (take (length old) (c # cs) = old \<or> occurs old cs)"

text \<open>
  \<^verbatim>\<open>str.lower()\<close> on ASCII text: the letters A to Z are mapped to a to z and every
  other character is kept.  A \<open>char\<close> is a byte, so the case mapping of characters
  beyond ASCII is outside the model.
\<close>

definition lower_char :: "char \<Rightarrow> char" where
  "lower_char c =
     (case map_of (zip ''ABCDEFGHIJKLMNOPQRSTUVWXYZ'' ''abcdefghijklmnopqrstuvwxyz'') c of
        Some d \<Rightarrow> d
      | None \<Rightarrow> c)"

definition lower :: "string \<Rightarrow> string" where
  "lower s = map lower_char s"

text \<open>
  \<^verbatim>\<open>
  def clean_string(row):
      try:
          s = row.lower().replace(" ", "_").replace("/", "_").replace(".", "")
          s = s.replace("-4", "unknown")
      except:
          s = None
      return s
  \<close>
  Only a text has the method \<^verbatim>\<open>lower\<close>; on a number or a missing value the call
  raises, the handler catches it and the result is \<^verbatim>\<open>None\<close>.
\<close>

fun clean_string :: "cell \<Rightarrow> string option" where
  "clean_string (Str row) =
     Some (replace ''-4'' ''unknown''
            (replace ''.'' [] (replace ''/'' ''_'' (replace '' '' ''_'' (lower row)))))"
| "clean_string _ = None"

section \<open>Bucketing and indicator columns\<close>

text \<open>The values of a column that are not missing, in row order.\<close>

definition dropna :: "'a option list \<Rightarrow> 'a list" where
  "dropna col = [v. Some v \<leftarrow> col]"

text \<open>
  The index of \<^verbatim>\<open>pd.value_counts(col)\<close>: the distinct values that are not missing, by
  falling number of occurrences.  The library does not document the order of equally
  frequent values; here they stay in the order of their first occurrence.
\<close>

definition value_counts :: "'a option list \<Rightarrow> 'a list" where
  "value_counts col =
     (let vs = dropna col
      in sort_key (\<lambda>v. - int (count_list vs v)) (rev (remdups (rev vs))))"

text \<open>
  \<^verbatim>\<open>
  counts = list(pd.value_counts(data[c]).index[:30])
  data[c] = data[c].apply(lambda x: x if x in counts else 'other')
  \<close>
  A missing value is not in \<open>counts\<close>, so it becomes \<open>other\<close> as well.
\<close>

definition bucket :: "string option list \<Rightarrow> string list" where
  "bucket col =
     (let counts = take 30 (value_counts col)
      in map (\<lambda>x. case x of
                     None \<Rightarrow> ''other''
                   | Some s \<Rightarrow> if s \<in> set counts then s else ''other'') col)"

text \<open>The clean-and-bucket step of the loop over the text categoricals.\<close>

definition clean_bucket :: "cell list \<Rightarrow> string list" where
  "clean_bucket col = bucket (map clean_string col)"

text \<open>
  \<^verbatim>\<open>pd.get_dummies(col, prefix=c, drop_first=True)\<close>: the levels are the distinct values
  that are not missing, sorted; the first level is dropped; every other level \<open>l\<close> gives
  a column named \<open>c_l\<close> that holds 1 in the rows whose value is \<open>l\<close> and 0 in the other
  rows.  \<open>render\<close> is the text of a level in the column name.
\<close>

definition levels :: "('a::linorder) option list \<Rightarrow> 'a list" where
  "levels col = sort (remdups (dropna col))"

definition get_dummies ::
  "('a \<Rightarrow> string) \<Rightarrow> string \<Rightarrow> ('a::linorder) option list \<Rightarrow> (string \<times> nat list) list" where
  "get_dummies render prefix col =
     map (\<lambda>l. (prefix @ ''_'' @ render l, map (\<lambda>x. if x = Some l then 1 else 0) col))
         (drop 1 (levels col))"

text \<open>The indicator columns of a text categorical (lines 194 to 205).\<close>

definition encode_text :: "string \<Rightarrow> cell list \<Rightarrow> (string \<times> nat list) list" where
  "encode_text c col = get_dummies id c (map Some (clean_bucket col))"



text \<open>
  A character that the cleaner leaves as it is: not an upper-case letter, a space, a
  slash or a period.
\<close>

definition plain_char :: "char \<Rightarrow> bool" where
  "plain_char c =
     (lower_char c = c \<and> c \<noteq> CHR '' '' \<and> c \<noteq> CHR ''/'' \<and> c \<noteq> CHR ''.'')"


section \<open>Example inputs\<close>

text \<open>
  A text column with 31 distinct values: thirty that occur twice and one that occurs
  once, and a missing value.
\<close>

definition level_names :: "string list" where
  "level_names =
     [''a01'', ''a02'', ''a03'', ''a04'', ''a05'', ''a06'', ''a07'', ''a08'', ''a09'', ''a10'',
      ''a11'', ''a12'', ''a13'', ''a14'', ''a15'', ''a16'', ''a17'', ''a18'', ''a19'', ''a20'',
      ''a21'', ''a22'', ''a23'', ''a24'', ''a25'', ''a26'', ''a27'', ''a28'', ''a29'', ''a30'']"

definition rare_column :: "cell list" where
  "rare_column = concat (map (\<lambda>s. [Str s, Str s]) level_names) @ [Str ''a31'', NA]"

text \<open>
  A text column with 30 distinct values: twenty-nine that occur twice and one that
  occurs once, and two missing values.
\<close>

definition sparse_column :: "cell list" where
  "sparse_column =
     concat (map (\<lambda>s. [Str s, Str s]) (take 29 level_names)) @ [Str ''a30'', NA, NA]"

text \<open>
  A registry and a table with the three censored columns, all kept and declared
  numeric over texts; the first column holds a text that is not a number.
\<close>

definition lab_registry :: "meta list" where
  "lab_registry =
     map (\<lambda>c. \<lparr>column_name = c, keep = 1, numeric = 1, categorical = 0,
               data_type = ''object''\<rparr>) censored_cols"

definition lab_table :: table where
  "lab_table =
     [(''ABETA_UPENNBIOMK9_04_19_17'', [Str ''<200'', Str ''abc'']),
      (''TAU_UPENNBIOMK9_04_19_17'', [Str ''93.4'', Str '' '']),
      (''PTAU_UPENNBIOMK9_04_19_17'', [Str ''>120'', NA])]"

text \<open>
  A base table of three visits of two subjects, ADAS scores for one visit, and tables
  by subject: two demographics records of subject 1 with the same date and one of
  subject 2, a family history with one screening record, the same with a second
  screening record of subject 1, one TOMM40 record of subject 2.
\<close>

definition base_table :: "visit_key frame" where
  "base_table =
     \<lparr>columns = [''AGE''],
      rows = [((1, ''bl''), [Num 70]), ((1, ''m06''), [Num 71]), ((2, ''bl''), [Num 65])]\<rparr>"

definition adas_table :: "visit_key frame" where
  "adas_table =
     \<lparr>columns = [''ID'', ''SITEID'', ''VISCODE2'', ''USERDATE'', ''EXAMDATE'', ''Q1'', ''Q2''],
      rows = [((1, ''m06''), [Num 12, Num 3, Str ''m06'', NA, NA, Num 4, Num 5])]\<rparr>"

definition tied_demog :: "string demo_row list" where
  "tied_demog =
     [(1, Some ''2005-09-07'', Str ''Right'' # replicate 7 NA),
      (1, Some ''2005-09-07'', Str ''Left'' # replicate 7 NA),
      (2, Some ''2006-01-10'', Str ''Right'' # replicate 7 NA)]"

definition fhq_table :: "fam_row list" where
  "fhq_table = [(1, ''sc'', replicate 6 (Num 0)), (2, ''m12'', replicate 6 (Num 0))]"

definition double_screening :: "fam_row list" where
  "double_screening = (1, ''sc'', replicate 6 (Num 1)) # fhq_table"

definition tomm_table :: "(nat \<times> cell list) list" where
  "tomm_table = [(2, [Num 23, Num 34])]"

definition two_joins :: "aux list" where
  "two_joins =
     [ByVisit \<lparr>columns = [''ADAS_Q1''], rows = [((1, ''m06''), [Num 4])]\<rparr>,
      BySubject \<lparr>columns = [''TOMM40_A1'', ''TOMM40_A2''], rows = tomm_table\<rparr>]"

section \<open>Properties of the text cleaner\<close>

lemma replace_char:
  "replace [a] new s = concat (map (\<lambda>x. if x = a then new else [x]) s)"
  by (induction s) simp_all

lemma replace_char_append:
  "replace [a] new (s @ t) = replace [a] new s @ replace [a] new t"
  by (simp add: replace_char)

lemma replace_absent:
  "old \<noteq> [] \<Longrightarrow> \<not> occurs old s \<Longrightarrow> replace old new s = s"
  by (induction s) simp_all

lemma replace_pair_hit:
  "replace [a, b] new (a # b # ds) = new @ replace [a, b] new ds"
  by simp

lemma replace_pair_miss:
  "\<not> (c = a \<and> (\<exists>ds. cs = b # ds)) \<Longrightarrow>
   replace [a, b] new (c # cs) = c # replace [a, b] new cs"
  by (cases cs) auto

lemma occurs_pair:
  "occurs [a, b] (c # cs) = ((c = a \<and> (\<exists>ds. cs = b # ds)) \<or> occurs [a, b] cs)"
  by (cases cs) auto

text \<open>
  After the sentinel replacement no occurrence of \<open>-4\<close> is left, and the result
  starts with the digit 4 only if the input did.
\<close>

lemma replace_m4_inv:
  "\<not> occurs ''-4'' (replace ''-4'' ''unknown'' s) \<and>
   (\<forall>t. replace ''-4'' ''unknown'' s = CHR ''4'' # t \<longrightarrow> (\<exists>u. s = CHR ''4'' # u))"
proof (induction s rule: length_induct)
  case (1 s)
  let ?r = "replace ''-4'' ''unknown''"
  show ?case
  proof (cases s)
    case Nil
    then show ?thesis by simp
  next
    case (Cons c cs)
    show ?thesis
    proof (cases "c = CHR ''-'' \<and> (\<exists>ds. cs = CHR ''4'' # ds)")
      case True
      then obtain ds where cs: "cs = CHR ''4'' # ds" and c: "c = CHR ''-''" by blast
      have eq: "?r s = ''unknown'' @ ?r ds"
        unfolding Cons cs c by (rule replace_pair_hit)
      have "\<not> occurs ''-4'' (?r ds)" using 1 Cons cs by simp
      then have "\<not> occurs ''-4'' (''unknown'' @ ?r ds)"
        by (simp only: append_Cons append_Nil occurs_pair) simp
      then show ?thesis unfolding eq by simp
    next
      case False
      have eq: "?r s = c # ?r cs"
        unfolding Cons using False by (rule replace_pair_miss)
      have ih: "\<not> occurs ''-4'' (?r cs)"
        "\<And>t. ?r cs = CHR ''4'' # t \<Longrightarrow> \<exists>u. cs = CHR ''4'' # u"
        using 1 Cons by simp_all
      have "\<not> occurs ''-4'' (c # ?r cs)"
        unfolding occurs_pair using ih False by blast
      then show ?thesis unfolding eq using Cons by simp
    qed
  qed
qed

lemma replace_m4_append:
  "replace ''-4'' new (a @ ''-4'' @ b) = replace ''-4'' new a @ new @ replace ''-4'' new b"
proof (induction a rule: length_induct)
  case (1 a)
  let ?r = "replace ''-4'' new"
  show ?case
  proof (cases a)
    case Nil
    show ?thesis unfolding Nil
      by (simp only: append_Nil append_Cons replace_pair_hit replace.simps) simp
  next
    case (Cons c cs)
    show ?thesis
    proof (cases "c = CHR ''-'' \<and> (\<exists>ds. cs = CHR ''4'' # ds)")
      case True
      then obtain ds where cs: "cs = CHR ''4'' # ds" and c: "c = CHR ''-''" by blast
      have "?r (ds @ ''-4'' @ b) = ?r ds @ new @ ?r b" using 1 Cons cs by simp
      then show ?thesis unfolding Cons cs c
        by (simp only: append_Cons replace_pair_hit append_assoc)
    next
      case False
      then have F2: "\<not> (c = CHR ''-'' \<and> (\<exists>ds. cs @ ''-4'' @ b = CHR ''4'' # ds))"
        by (cases cs) auto
      have "?r (cs @ ''-4'' @ b) = ?r cs @ new @ ?r b" using 1 Cons by simp
      then show ?thesis unfolding Cons
        using replace_pair_miss [OF False, of new] replace_pair_miss [OF F2, of new]
        by (simp only: append_Cons)
    qed
  qed
qed

lemma replace_char_absent: "a \<notin> set s \<Longrightarrow> replace [a] new s = s"
  by (induction s) auto

lemma set_replace_char: "set (replace [a] new s) \<subseteq> (set s - {a}) \<union> set new"
  by (auto simp add: replace_char split: if_splits)

lemma set_replace: "set (replace old new s) \<subseteq> set s \<union> set new"
proof (induction s rule: length_induct)
  case (1 s)
  show ?case
  proof (cases s)
    case Nil
    then show ?thesis by auto
  next
    case (Cons c cs)
    have ih1: "set (replace old new cs) \<subseteq> set cs \<union> set new"
      using 1 Cons by simp
    have ih2: "set (replace old new (drop (length old) (c # cs)))
               \<subseteq> set (drop (length old) (c # cs)) \<union> set new" if "old \<noteq> []"
    proof -
      have "length (drop (length old) (c # cs)) < length s" using that Cons by (cases old) simp_all
      with 1 show ?thesis by blast
    qed
    have sub: "set (drop (length old) (c # cs)) \<subseteq> set (c # cs)" by (rule set_drop_subset)
    show ?thesis
    proof (cases "old = []")
      case True
      with ih1 Cons show ?thesis by auto
    next
      case False
      show ?thesis
      proof (cases "take (length old) (c # cs) = old")
        case True
        with False have "replace old new s = new @ replace old new (drop (length old) (c # cs))"
          unfolding Cons by (simp del: drop_Suc_Cons take_Suc_Cons)
        with ih2 [OF False] sub Cons show ?thesis by auto
      next
        case F2: False
        with False have "replace old new s = c # replace old new cs"
          unfolding Cons by (simp del: drop_Suc_Cons take_Suc_Cons)
        with ih1 Cons show ?thesis by auto
      qed
    qed
  qed
qed

lemma lower_char_idem: "lower_char (lower_char c) = lower_char c"
  by (simp add: lower_char_def)

lemma plain_unknown: "\<forall>c\<in>set ''unknown''. plain_char c"
  by (simp add: plain_char_def lower_char_def)

lemma clean_string_plain:
  assumes "clean_string v = Some t"
  shows "(\<forall>c\<in>set t. plain_char c) \<and> \<not> occurs ''-4'' t"
proof -
  from assms obtain row where v: "v = Str row" by (cases v) simp_all
  let ?a = "lower row"
  let ?b = "replace '' '' ''_'' ?a"
  let ?c = "replace ''/'' ''_'' ?b"
  let ?d = "replace ''.'' [] ?c"
  have t: "t = replace ''-4'' ''unknown'' ?d" using assms v by simp
  have a: "\<forall>c\<in>set ?a. lower_char c = c"
    by (auto simp add: lower_def lower_char_idem)
  have us: "lower_char (CHR ''_'') = CHR ''_''" by (simp add: lower_char_def)
  have b: "\<forall>c\<in>set ?b. lower_char c = c \<and> c \<noteq> CHR '' ''"
    using set_replace_char [of "CHR '' ''" "''_''" ?a] a us by auto
  have c: "\<forall>c\<in>set ?c. lower_char c = c \<and> c \<noteq> CHR '' '' \<and> c \<noteq> CHR ''/''"
    using set_replace_char [of "CHR ''/''" "''_''" ?b] b us by auto
  have d: "\<forall>c\<in>set ?d. plain_char c"
    using set_replace_char [of "CHR ''.''" "[]" ?c] c unfolding plain_char_def by auto
  have "\<forall>c\<in>set t. plain_char c"
    using set_replace [of "''-4''" "''unknown''" ?d] d plain_unknown unfolding t by blast
  moreover have "\<not> occurs ''-4'' t"
    unfolding t using replace_m4_inv by blast
  ultimately show ?thesis by blast
qed

lemma clean_string_fixed:
  assumes "\<forall>c\<in>set t. plain_char c" and "\<not> occurs ''-4'' t"
  shows "clean_string (Str t) = Some t"
proof -
  have "lower t = t"
    unfolding lower_def using assms(1) by (simp add: plain_char_def map_idI)
  moreover have "replace '' '' ''_'' t = t"
    using assms(1) by (intro replace_char_absent) (auto simp add: plain_char_def)
  moreover have "replace ''/'' ''_'' t = t"
    using assms(1) by (intro replace_char_absent) (auto simp add: plain_char_def)
  moreover have "replace ''.'' [] t = t"
    using assms(1) by (intro replace_char_absent) (auto simp add: plain_char_def)
  moreover have "replace ''-4'' ''unknown'' t = t"
    using assms(2) by (intro replace_absent) simp_all
  ultimately show ?thesis by (simp only: clean_string.simps)
qed

lemma clean_string_idem:
  "clean_string v = Some t \<Longrightarrow> clean_string (Str t) = Some t"
  using clean_string_plain clean_string_fixed by blast

lemma clean_string_other: "clean_string (Str ''other'') = Some ''other''"
  by (simp add: lower_def lower_char_def)


text \<open>
  C8: the cleaner maps the sentinel text \<open>-4\<close> to the token \<open>unknown\<close>, and a value
  that cannot be cleaned (a missing value, a number: anything that is not a text) to
  missing, never to a text.
\<close>

theorem clean_string_sentinel_and_missing:
  "clean_string (Str ''-4'') = Some ''unknown'' \<and>
   clean_string NA = None \<and>
   clean_string (Num x) = None \<and>
   (clean_string v = None) = (v \<notin> range Str)"
  by (cases v) (auto simp add: lower_def lower_char_def)

text \<open>
  C10: the sentinel is replaced wherever it occurs in the normalised text, not only
  in a value equal to it: \<open>-40\<close> cleans to \<open>unknown0\<close> and \<open>-4.5\<close> (whose period is
  removed first) to \<open>unknown5\<close>; no cleaned text contains \<open>-4\<close> any more; and a
  sentinel between any two texts becomes \<open>unknown\<close> between their cleaned forms.
\<close>

theorem clean_string_replaces_every_sentinel:
  "clean_string (Str ''-40'') = Some ''unknown0'' \<and>
   clean_string (Str ''-4.5'') = Some ''unknown5'' \<and>
   (\<exists>t. clean_string (Str s) = Some t \<and> \<not> occurs ''-4'' t) \<and>
   (\<exists>p q. clean_string (Str a) = Some p \<and> clean_string (Str b) = Some q \<and>
          clean_string (Str (a @ ''-4'' @ b)) = Some (p @ ''unknown'' @ q))"
proof -
  have e1: "clean_string (Str ''-40'') = Some ''unknown0''"
    by (simp add: lower_def lower_char_def)
  have e2: "clean_string (Str ''-4.5'') = Some ''unknown5''"
    by (simp add: lower_def lower_char_def)
  have e3: "\<exists>t. clean_string (Str s) = Some t \<and> \<not> occurs ''-4'' t"
    using replace_m4_inv by (simp del: replace.simps occurs.simps)
  have low: "lower ''-4'' = ''-4''"
    by (simp add: lower_def lower_char_def)
  have r1: "replace '' '' ''_'' ''-4'' = ''-4''" by simp
  have r2: "replace ''/'' ''_'' ''-4'' = ''-4''" by simp
  have r3: "replace ''.'' '''' ''-4'' = ''-4''" by simp
  have "lower (a @ ''-4'' @ b) = lower a @ ''-4'' @ lower b"
    using low by (simp add: lower_def)
  then have "replace ''.'' '''' (replace ''/'' ''_'' (replace '' '' ''_'' (lower (a @ ''-4'' @ b))))
      = replace ''.'' '''' (replace ''/'' ''_'' (replace '' '' ''_'' (lower a))) @ ''-4'' @
        replace ''.'' '''' (replace ''/'' ''_'' (replace '' '' ''_'' (lower b)))"
    by (simp only: replace_char_append r1 r2 r3)
  then have e4: "\<exists>p q. clean_string (Str a) = Some p \<and> clean_string (Str b) = Some q \<and>
          clean_string (Str (a @ ''-4'' @ b)) = Some (p @ ''unknown'' @ q)"
    by (simp only: clean_string.simps replace_m4_append) simp
  show ?thesis using e1 e2 e3 e4 by blast
qed

section \<open>Properties of the bucketing\<close>

lemma set_value_counts: "set (value_counts col) = set (dropna col)"
  by (simp add: value_counts_def Let_def)

lemma distinct_value_counts: "distinct (value_counts col)"
  by (simp add: value_counts_def Let_def)

lemma length_value_counts: "length (value_counts col) = card (set (dropna col))"
  using distinct_card [OF distinct_value_counts, of col] by (simp add: set_value_counts)

lemma sorted_value_counts:
  "sorted (map (\<lambda>v. - int (count_list (dropna col) v)) (value_counts col))"
  by (simp add: value_counts_def Let_def)

lemma top_counts:
  assumes "a \<in> set (take n (value_counts col))"
    and "b \<in> set (dropna col) - set (take n (value_counts col))"
  shows "count_list (dropna col) b \<le> count_list (dropna col) a"
proof -
  let ?k = "\<lambda>v. - int (count_list (dropna col) v)"
  let ?vc = "value_counts col"
  have "b \<in> set ?vc" using assms(2) by (simp add: set_value_counts)
  then have "b \<in> set (take n ?vc) \<union> set (drop n ?vc)"
    by (metis append_take_drop_id set_append)
  with assms(2) have b: "b \<in> set (drop n ?vc)" by blast
  have "sorted (map ?k (take n ?vc) @ map ?k (drop n ?vc))"
    using sorted_value_counts [of col] by (metis append_take_drop_id map_append)
  then have "\<forall>x\<in>set (map ?k (take n ?vc)). \<forall>y\<in>set (map ?k (drop n ?vc)). x \<le> y"
    by (simp add: sorted_append)
  with assms(1) b have "?k a \<le> ?k b" by simp
  then show ?thesis by simp
qed

lemma bucket_nth:
  assumes "i < length col"
  shows "bucket col ! i =
         (case col ! i of
            None \<Rightarrow> ''other''
          | Some s \<Rightarrow> if s \<in> set (take 30 (value_counts col)) then s else ''other'')"
  using assms by (simp add: bucket_def Let_def)

lemma set_bucket: "set (bucket col) \<subseteq> insert ''other'' (set (take 30 (value_counts col)))"
  by (auto simp add: bucket_def Let_def split: option.splits if_splits)

lemma card_bucket: "card (set (bucket col)) \<le> 31"
proof -
  have "card (set (bucket col)) \<le> card (insert ''other'' (set (take 30 (value_counts col))))"
    by (rule card_mono) (simp_all add: set_bucket)
  also have "\<dots> \<le> Suc (card (set (take 30 (value_counts col))))"
    by (simp add: card_insert_if)
  also have "\<dots> \<le> Suc (length (take 30 (value_counts col)))"
    using card_length [of "take 30 (value_counts col)"] by simp
  also have "\<dots> \<le> 31" by simp
  finally show ?thesis .
qed


text \<open>
  C5: the kept levels are the 30 most frequent values of the cleaned column (all of
  them when there are fewer): distinct values of the column, none less frequent than a
  value left out.  Bucketing keeps a cell whose value is a kept level and rewrites every
  other cell, a missing one included, to \<open>other\<close>; so at most 31 distinct values
  remain, for any column and for a cleaned column in particular.
\<close>

theorem bucket_keeps_top_30:
  "distinct (take 30 (value_counts col)) \<and>
   set (take 30 (value_counts col)) \<subseteq> set (dropna col) \<and>
   length (take 30 (value_counts col)) = min 30 (card (set (dropna col))) \<and>
   (\<forall>a\<in>set (take 30 (value_counts col)).
      \<forall>b\<in>set (dropna col) - set (take 30 (value_counts col)).
        count_list (dropna col) b \<le> count_list (dropna col) a) \<and>
   length (bucket col) = length col \<and>
   (\<forall>i<length col.
      bucket col ! i =
        (if col ! i \<in> Some ` set (take 30 (value_counts col)) then the (col ! i) else ''other'')) \<and>
   card (set (bucket col)) \<le> 31 \<and>
   card (set (clean_bucket raw)) \<le> 31"
proof -
  have 1: "distinct (take 30 (value_counts col))"
    using distinct_value_counts by (rule distinct_take)
  have 2: "set (take 30 (value_counts col)) \<subseteq> set (dropna col)"
    using set_take_subset [of 30 "value_counts col"] by (simp add: set_value_counts)
  have 3: "length (take 30 (value_counts col)) = min 30 (card (set (dropna col)))"
    by (simp add: length_value_counts)
  have 4: "\<forall>a\<in>set (take 30 (value_counts col)).
      \<forall>b\<in>set (dropna col) - set (take 30 (value_counts col)).
        count_list (dropna col) b \<le> count_list (dropna col) a"
    by (intro ballI) (rule top_counts)
  have 5: "length (bucket col) = length col" by (simp add: bucket_def Let_def)
  have 6: "\<forall>i<length col.
      bucket col ! i =
        (if col ! i \<in> Some ` set (take 30 (value_counts col)) then the (col ! i) else ''other'')"
  proof (intro allI impI)
    fix i assume "i < length col"
    then show "bucket col ! i =
        (if col ! i \<in> Some ` set (take 30 (value_counts col)) then the (col ! i) else ''other'')"
      by (cases "col ! i") (simp_all add: bucket_nth image_iff)
  qed
  have 7: "card (set (bucket col)) \<le> 31" by (rule card_bucket)
  have 8: "card (set (clean_bucket raw)) \<le> 31"
    unfolding clean_bucket_def by (rule card_bucket)
  from 1 2 3 4 5 6 7 8 show ?thesis by (intro conjI)
qed

theorem bucket_keeps_top_30_witness:
  "''a01'' \<in> set (take 30 (value_counts (map clean_string rare_column))) \<and>
   ''a31'' \<in> set (dropna (map clean_string rare_column)) -
             set (take 30 (value_counts (map clean_string rare_column))) \<and>
   count_list (dropna (map clean_string rare_column)) ''a31''
     \<le> count_list (dropna (map clean_string rare_column)) ''a01'' \<and>
   0 < length (map clean_string rare_column) \<and>
   60 < length (map clean_string rare_column) \<and>
   bucket (map clean_string rare_column) ! 0 = ''a01'' \<and>
   bucket (map clean_string rare_column) ! 60 = ''other'' \<and>
   card (set (clean_bucket rare_column)) \<le> 31"
proof -
  let ?c = "map clean_string rare_column"
  let ?kept = "take 30 (value_counts ?c)"
  note T = bucket_keeps_top_30 [of ?c rare_column]
  have a: "''a01'' \<in> set ?kept" by code_simp
  have b: "''a31'' \<in> set (dropna ?c) - set ?kept" by code_simp
  have i0: "0 < length ?c" by code_simp
  have i60: "60 < length ?c" by code_simp
  have v0: "?c ! 0 \<in> Some ` set ?kept" by code_simp
  have w0: "the (?c ! 0) = ''a01''" by code_simp
  have v60: "?c ! 60 \<notin> Some ` set ?kept" by code_simp
  from T have top: "\<forall>a\<in>set ?kept. \<forall>b\<in>set (dropna ?c) - set ?kept.
      count_list (dropna ?c) b \<le> count_list (dropna ?c) a"
    by (elim conjE)
  from top a have "\<forall>b\<in>set (dropna ?c) - set ?kept.
      count_list (dropna ?c) b \<le> count_list (dropna ?c) ''a01''"
    by (rule bspec)
  from this b have cnt: "count_list (dropna ?c) ''a31'' \<le> count_list (dropna ?c) ''a01''"
    by (rule bspec)
  from T have nth: "\<forall>i<length ?c.
      bucket ?c ! i = (if ?c ! i \<in> Some ` set ?kept then the (?c ! i) else ''other'')"
    by (elim conjE)
  from nth i0 v0 w0 have b0: "bucket ?c ! 0 = ''a01''" by simp
  from nth i60 v60 have b60: "bucket ?c ! 60 = ''other''" by simp
  from T have cd: "card (set (clean_bucket rare_column)) \<le> 31" by (elim conjE)
  from a b cnt i0 i60 b0 b60 cd show ?thesis by (intro conjI)
qed

lemma clean_bucket_values:
  assumes "y \<in> set (clean_bucket col)"
  shows "clean_string (Str y) = Some y"
proof -
  from assms have "y = ''other'' \<or> y \<in> set (take 30 (value_counts (map clean_string col)))"
    using set_bucket [of "map clean_string col"] unfolding clean_bucket_def by auto
  then show ?thesis
  proof
    assume "y = ''other''"
    then show ?thesis by (simp only: clean_string_other)
  next
    assume "y \<in> set (take 30 (value_counts (map clean_string col)))"
    then have "y \<in> set (dropna (map clean_string col))"
      using set_take_subset [of 30 "value_counts (map clean_string col)"]
      by (auto simp add: set_value_counts)
    then obtain v where "clean_string v = Some y"
      by (auto simp add: dropna_def split: option.splits)
    then show ?thesis by (rule clean_string_idem)
  qed
qed

lemma bucket_few_levels:
  assumes "length (value_counts (map Some ys)) \<le> 30"
  shows "bucket (map Some ys) = ys"
proof -
  have "take 30 (value_counts (map Some ys)) = value_counts (map Some ys)"
    using assms by simp
  moreover have "set (value_counts (map Some ys)) = set ys"
    by (simp add: set_value_counts dropna_def)
  ultimately show ?thesis
    by (simp add: bucket_def Let_def map_idI)
qed


text \<open>
  C6, as the specification states it, fails: in \<open>sparse_column\<close> the thirty values are
  all kept and the two missing cells become \<open>other\<close>, the thirty-first value of the
  bucketed column; bucketing that column again drops its least frequent value, \<open>a30\<close>.
\<close>

theorem clean_bucket_not_idempotent:
  "clean_bucket sparse_column ! 58 = ''a30'' \<and>
   clean_bucket (map Str (clean_bucket sparse_column)) ! 58 = ''other'' \<and>
   clean_bucket (map Str (clean_bucket sparse_column)) \<noteq> clean_bucket sparse_column"
  by code_simp

text \<open>
  C6, amended: every cleaned and bucketed value cleans to itself, and when the bucketed
  column has at most 30 distinct values, cleaning and bucketing it again leaves every
  value unchanged.
\<close>

theorem clean_bucket_fixed_point:
  assumes "length (value_counts (map Some (clean_bucket col))) \<le> 30"
  shows "map clean_string (map Str (clean_bucket col)) = map Some (clean_bucket col) \<and>
         clean_bucket (map Str (clean_bucket col)) = clean_bucket col"
proof -
  have 1: "map clean_string (map Str (clean_bucket col)) = map Some (clean_bucket col)"
    using clean_bucket_values [of _ col] by (simp add: map_eq_conv)
  have "clean_bucket (map Str (clean_bucket col)) =
        bucket (map clean_string (map Str (clean_bucket col)))"
    by (simp only: clean_bucket_def)
  also have "\<dots> = bucket (map Some (clean_bucket col))" by (simp only: 1)
  also have "\<dots> = clean_bucket col" using assms by (rule bucket_few_levels)
  finally show ?thesis using 1 by simp
qed

theorem clean_bucket_fixed_point_witness:
  "length (value_counts (map Some (clean_bucket [Str ''Left Handed'', Str ''-4'', NA, Str ''-4'']))) \<le> 30 \<and>
   clean_bucket [Str ''Left Handed'', Str ''-4'', NA, Str ''-4''] =
     [''left_handed'', ''unknown'', ''other'', ''unknown''] \<and>
   clean_bucket (map Str (clean_bucket [Str ''Left Handed'', Str ''-4'', NA, Str ''-4''])) =
     clean_bucket [Str ''Left Handed'', Str ''-4'', NA, Str ''-4'']"
proof -
  let ?col = "[Str ''Left Handed'', Str ''-4'', NA, Str ''-4'']"
  have h: "length (value_counts (map Some (clean_bucket ?col))) \<le> 30" by code_simp
  have v: "clean_bucket ?col = [''left_handed'', ''unknown'', ''other'', ''unknown'']"
    by code_simp
  from clean_bucket_fixed_point [OF h]
  have f: "clean_bucket (map Str (clean_bucket ?col)) = clean_bucket ?col"
    by (rule conjunct2)
  from h v f show ?thesis by (intro conjI)
qed

section \<open>Properties of the indicator columns\<close>










section \<open>Properties of the numeric cleaning\<close>




lemma dropWhile_nil_all: "dropWhile P s = [] \<Longrightarrow> \<forall>c\<in>set s. P c"
  by (simp add: dropWhile_eq_Nil_conv)











text \<open>
  C1 does not hold of the script: the loop over the numeric columns calls
  \<^verbatim>\<open>pd.to_numeric\<close> with its default \<^verbatim>\<open>errors='raise'\<close>.  On \<open>lab_table\<close>, whose first
  numeric column holds the text \<open>abc\<close>, the cleaning ends with the exception instead
  of a table with a missing value; the same text under \<^verbatim>\<open>errors='coerce'\<close>, the call of
  the retirement-year transform, becomes missing.
\<close>

theorem unparseable_numeric_value_raises:
  "clean_numerical lab_registry lab_table = Inl UnableToParse \<and>
   to_numeric Raise (Str ''abc'') = Inl UnableToParse \<and>
   to_numeric Coerce (Str ''abc'') = Inr NA"
  by code_simp




section \<open>Properties of record selection, loading and joins\<close>

lemma latest_records_alt:
  "latest_records tbl =
   map (\<lambda>r. (fst r, snd (snd r))) (filter (\<lambda>r. rank_desc tbl r = Some 1) tbl)"
proof -
  have "[(rid, vs). (rid, d, vs) \<leftarrow> tbl, Q (rid, d, vs)] =
        map (\<lambda>r. (fst r, snd (snd r))) (filter Q tbl)" for Q
    by (induction tbl) auto
  from this [of "\<lambda>r. rank_desc tbl r = Some 1"] show ?thesis
    unfolding latest_records_def by simp
qed

lemma rank_desc_one:
  "(rank_desc tbl (rid, d, vs) = Some 1) =
   (\<exists>t. d = Some t \<and> filter (\<lambda>u. t < u) (group_dates tbl rid) = [] \<and>
        length (filter (\<lambda>u. u = t) (group_dates tbl rid)) = 1)"
proof (cases d)
  case None
  then show ?thesis by (simp add: rank_desc_def)
next
  case (Some t)
  define a where "a = length (filter (\<lambda>u. t < u) (group_dates tbl rid))"
  define b where "b = length (filter (\<lambda>u. u = t) (group_dates tbl rid))"
  have "(rat_of_nat a + (rat_of_nat b + 1) / 2 = 1) = (2 * a + b = 1)"
  proof -
    have "(rat_of_nat a + (rat_of_nat b + 1) / 2 = 1) = (rat_of_nat (2 * a + b) = rat_of_nat 1)"
      by (simp add: field_simps)
    then show ?thesis by (simp only: of_nat_eq_iff)
  qed
  also have "\<dots> = (a = 0 \<and> b = 1)" by presburger
  finally show ?thesis using Some
    by (simp add: rank_desc_def Let_def a_def b_def)
qed

lemma group_dates_count:
  "length (filter (\<lambda>u. u = t) (group_dates tbl rid)) =
   length (filter (\<lambda>r. fst r = rid \<and> fst (snd r) = Some t) tbl)"
  unfolding group_dates_def by (induction tbl) (auto split: option.splits)

lemma group_dates_member:
  "(rid, Some t, vs) \<in> set tbl \<Longrightarrow> t \<in> set (group_dates tbl rid)"
  unfolding group_dates_def by force

lemma length_filter_mono:
  "(\<And>x. x \<in> set xs \<Longrightarrow> P x \<Longrightarrow> Q x) \<Longrightarrow> length (filter P xs) \<le> length (filter Q xs)"
  by (induction xs) auto

lemma distinct_map_filter:
  assumes "\<And>x. x \<in> set xs \<Longrightarrow> P x \<Longrightarrow> length (filter (\<lambda>y. f y = f x \<and> P y) xs) \<le> 1"
  shows "distinct (map f (filter P xs))"
  using assms
proof (induction xs)
  case Nil
  then show ?case by simp
next
  case (Cons a xs)
  have tail: "distinct (map f (filter P xs))"
  proof (rule Cons.IH)
    fix x assume x: "x \<in> set xs" "P x"
    have "length (filter (\<lambda>y. f y = f x \<and> P y) xs)
          \<le> length (filter (\<lambda>y. f y = f x \<and> P y) (a # xs))" by simp
    also have "\<dots> \<le> 1" using Cons.prems [of x] x by simp
    finally show "length (filter (\<lambda>y. f y = f x \<and> P y) xs) \<le> 1" .
  qed
  show ?case
  proof (cases "P a")
    case False
    with tail show ?thesis by simp
  next
    case True
    have "f a \<notin> f ` set (filter P xs)"
    proof
      assume "f a \<in> f ` set (filter P xs)"
      then obtain y where y: "y \<in> set xs" "P y" "f y = f a" by auto
      then have "filter (\<lambda>z. f z = f a \<and> P z) xs \<noteq> []"
        by (auto simp add: filter_empty_conv)
      then have "1 \<le> length (filter (\<lambda>z. f z = f a \<and> P z) xs)"
        by (cases "filter (\<lambda>z. f z = f a \<and> P z) xs") simp_all
      then have "2 \<le> length (filter (\<lambda>z. f z = f a \<and> P z) (a # xs))"
        using True by simp
      moreover have "length (filter (\<lambda>z. f z = f a \<and> P z) (a # xs)) \<le> 1"
        using Cons.prems [of a] True by simp
      ultimately show False by simp
    qed
    with tail True show ?thesis by simp
  qed
qed

lemma latest_records_distinct: "distinct (map fst (latest_records tbl))"
proof -
  let ?P = "\<lambda>r. rank_desc tbl r = Some 1"
  have "distinct (map fst (filter ?P tbl))"
  proof (rule distinct_map_filter)
    fix x assume x: "x \<in> set tbl" "?P x"
    obtain rid d vs where xr: "x = (rid, d, vs)" by (cases x)
    from x(2) xr obtain t where t: "d = Some t"
      "filter (\<lambda>u. t < u) (group_dates tbl rid) = []"
      "length (filter (\<lambda>u. u = t) (group_dates tbl rid)) = 1"
      using rank_desc_one [of tbl rid d vs] by auto
    have "length (filter (\<lambda>y. fst y = fst x \<and> ?P y) tbl)
          \<le> length (filter (\<lambda>r. fst r = rid \<and> fst (snd r) = Some t) tbl)"
    proof (rule length_filter_mono)
      fix y assume y: "y \<in> set tbl" "fst y = fst x \<and> ?P y"
      obtain rid' d' vs' where yr: "y = (rid', d', vs')" by (cases y)
      from y(2) yr xr have rid': "rid' = rid" by simp
      from y(2) yr rid' obtain t' where t': "d' = Some t'"
        "filter (\<lambda>u. t' < u) (group_dates tbl rid) = []"
        using rank_desc_one [of tbl rid d' vs'] by auto
      have "t \<in> set (group_dates tbl rid)"
        using x(1) xr t(1) group_dates_member by fastforce
      with t'(2) have "\<not> t' < t" by (auto simp add: filter_empty_conv)
      moreover have "t' \<in> set (group_dates tbl rid)"
        using y(1) yr rid' t'(1) group_dates_member by fastforce
      with t(2) have "\<not> t < t'" by (auto simp add: filter_empty_conv)
      ultimately have "t' = t" by simp
      with yr rid' t'(1) show "fst y = rid \<and> fst (snd y) = Some t" by simp
    qed
    also have "\<dots> = 1" using t(3) group_dates_count [of t tbl rid] by simp
    finally show "length (filter (\<lambda>y. fst y = fst x \<and> ?P y) tbl) \<le> 1" .
  qed
  then show ?thesis by (simp add: latest_records_alt comp_def)
qed


text \<open>
  What the selection keeps: the rows with a timestamp that no other row of the subject
  reaches or exceeds.
\<close>

lemma latest_records_member:
  "((rid, vs) \<in> set (latest_records tbl)) =
   (\<exists>t. (rid, Some t, vs) \<in> set tbl \<and>
        filter (\<lambda>u. t < u) (group_dates tbl rid) = [] \<and>
        length (filter (\<lambda>u. u = t) (group_dates tbl rid)) = 1)"
proof -
  have "((rid, vs) \<in> set (latest_records tbl)) =
        (\<exists>d. (rid, d, vs) \<in> set tbl \<and> rank_desc tbl (rid, d, vs) = Some 1)"
    unfolding latest_records_alt by force
  then show ?thesis unfolding rank_desc_one by blast
qed

text \<open>
  C2 does not hold of the script: \<^verbatim>\<open>rank\<close> gives two rows of a subject that share the
  greatest timestamp the rank 1.5 each, so the selection \<^verbatim>\<open>RNK == 1\<close> keeps neither
  and the subject has no row at all.  In \<open>tied_demog\<close> subject 1 has two records of
  the same date; only the record of subject 2 is selected.
\<close>

theorem tied_latest_records_are_dropped:
  "rank_desc tied_demog (1, Some ''2005-09-07'', Str ''Right'' # replicate 7 NA) = Some (3 / 2) \<and>
   rank_desc tied_demog (1, Some ''2005-09-07'', Str ''Left'' # replicate 7 NA) = Some (3 / 2) \<and>
   latest_records tied_demog = [(2, Str ''Right'' # replicate 7 NA)] \<and>
   load_demo tied_demog =
     Inr \<lparr>columns = demo_cols, rows = [(2, Str ''Right'' # replicate 7 NA)]\<rparr>"
  by code_simp

lemma set_index_fails: "(set_index df = Inl e) = (e = DuplicateKeys \<and> \<not> distinct (map fst (rows df)))"
  by (auto simp add: set_index_def)

lemma set_index_ok: "(set_index df = Inr out) = (out = df \<and> distinct (map fst (rows df)))"
  by (auto simp add: set_index_def)

lemma load_adas_ok:
  "load_adas raw = Inr out \<Longrightarrow>
   distinct (map fst (rows raw)) \<and> map fst (rows out) = map fst (rows raw)"
  by (auto simp add: load_adas_def and_then_def set_index_ok case_prod_beta comp_def
      split: sum.splits)

lemma and_then_Inr:
  "(and_then r f = Inr y) = (\<exists>x. r = Inr x \<and> f x = Inr y)"
  by (cases r) (simp_all add: and_then_def)

lemma assemble_steps:
  assumes "assemble tadpole adasscores ptdemog fhq tomm40 = Inr out"
  shows "\<exists>a d f t.
           set_index tadpole = Inr tadpole \<and> load_adas adasscores = Inr a \<and>
           load_demo ptdemog = Inr d \<and> load_fam fhq = Inr f \<and> load_tom tomm40 = Inr t \<and>
           join_all tadpole [ByVisit a, BySubject d, BySubject f, BySubject t] = Inr out"
proof -
  from assms obtain p a d j1 f j2 t where
    s: "set_index tadpole = Inr p" "load_adas adasscores = Inr a" "load_demo ptdemog = Inr d"
       "join_left (merge_left p a) d = Inr j1" "load_fam fhq = Inr f"
       "join_left j1 f = Inr j2" "load_tom tomm40 = Inr t" "join_left j2 t = Inr out"
    unfolding assemble_def and_then_Inr Let_def by blast
  from s(1) have p: "p = tadpole" by (simp add: set_index_ok)
  have "join_all tadpole [ByVisit a, BySubject d, BySubject f, BySubject t] = Inr out"
    using s(4,6,8) unfolding p by (simp add: and_then_def)
  with s p show ?thesis by blast
qed

text \<open>
  C9: setting the index of a table fails exactly when two of its rows have the same
  key: for the base table and the ADAS scores on subject and visit, for the family
  history on the subject of its screening rows, so that two screening rows of one
  subject abort the load, and for TOMM40 on the subject.  The demographics table is
  indexed after the selection of the latest records, which never leaves two rows of a
  subject, so its check cannot fail.  A run in which one of the checks fails ends with
  an error and no table.
\<close>

theorem duplicate_keys_abort:
  "(set_index tadpole = Inl DuplicateKeys) = (\<not> distinct (map fst (rows tadpole))) \<and>
   (load_adas adasscores = Inl DuplicateKeys) = (\<not> distinct (map fst (rows adasscores))) \<and>
   (load_fam fhq = Inl DuplicateKeys) = (\<not> distinct (map fst (screening_records fhq))) \<and>
   (load_tom tomm40 = Inl DuplicateKeys) = (\<not> distinct (map fst tomm40)) \<and>
   (load_demo ptdemog = Inl DuplicateKeys) = (\<not> distinct (map fst (latest_records ptdemog))) \<and>
   distinct (map fst (latest_records ptdemog)) \<and>
   (\<not> distinct (map fst (rows tadpole)) \<or> \<not> distinct (map fst (rows adasscores)) \<or>
    \<not> distinct (map fst (screening_records fhq)) \<or> \<not> distinct (map fst tomm40)
    \<longrightarrow> (\<exists>e. assemble tadpole adasscores ptdemog fhq tomm40 = Inl e))"
proof (intro conjI impI)
  show "(set_index tadpole = Inl DuplicateKeys) = (\<not> distinct (map fst (rows tadpole)))"
    by (simp add: set_index_def)
  show "(load_adas adasscores = Inl DuplicateKeys) = (\<not> distinct (map fst (rows adasscores)))"
    by (simp add: load_adas_def and_then_def set_index_def)
  show "(load_fam fhq = Inl DuplicateKeys) = (\<not> distinct (map fst (screening_records fhq)))"
    by (simp add: load_fam_def set_index_def)
  show "(load_tom tomm40 = Inl DuplicateKeys) = (\<not> distinct (map fst tomm40))"
    by (simp add: load_tom_def set_index_def)
  show "(load_demo ptdemog = Inl DuplicateKeys) = (\<not> distinct (map fst (latest_records ptdemog)))"
    by (simp add: load_demo_def set_index_def)
  show "distinct (map fst (latest_records ptdemog))"
    by (rule latest_records_distinct)
next
  assume dup: "\<not> distinct (map fst (rows tadpole)) \<or> \<not> distinct (map fst (rows adasscores)) \<or>
    \<not> distinct (map fst (screening_records fhq)) \<or> \<not> distinct (map fst tomm40)"
  show "\<exists>e. assemble tadpole adasscores ptdemog fhq tomm40 = Inl e"
  proof (cases "assemble tadpole adasscores ptdemog fhq tomm40")
    case (Inl e)
    then show ?thesis by blast
  next
    case (Inr out)
    from assemble_steps [OF Inr] obtain a d f t where
      s: "set_index tadpole = Inr tadpole" "load_adas adasscores = Inr a"
         "load_fam fhq = Inr f" "load_tom tomm40 = Inr t"
      by blast
    from s(1) have "distinct (map fst (rows tadpole))" by (simp add: set_index_ok)
    moreover from s(2) have "distinct (map fst (rows adasscores))"
      using load_adas_ok by blast
    moreover from s(3) have "distinct (map fst (screening_records fhq))"
      by (simp add: load_fam_def set_index_ok)
    moreover from s(4) have "distinct (map fst tomm40)"
      by (simp add: load_tom_def set_index_ok)
    ultimately show ?thesis using dup by blast
  qed
qed

theorem duplicate_keys_abort_witness:
  "\<not> distinct (map fst (screening_records double_screening)) \<and>
   load_fam double_screening = Inl DuplicateKeys \<and>
   assemble base_table adas_table tied_demog double_screening tomm_table = Inl DuplicateKeys \<and>
   (\<exists>e. assemble base_table adas_table tied_demog double_screening tomm_table = Inl e)"
proof -
  have d: "\<not> distinct (map fst (screening_records double_screening))" by code_simp
  have v: "assemble base_table adas_table tied_demog double_screening tomm_table = Inl DuplicateKeys"
    by code_simp
  note T = duplicate_keys_abort [of base_table adas_table double_screening tomm_table tied_demog]
  from T d have l: "load_fam double_screening = Inl DuplicateKeys" by blast
  from T d have e: "\<exists>e. assemble base_table adas_table tied_demog double_screening tomm_table = Inl e"
    by blast
  from d l v e show ?thesis by (intro conjI)
qed

lemma filter_unique_key:
  "distinct (map fst rs) \<Longrightarrow>
   filter (\<lambda>r. fst r = j) rs = (case map_of rs j of None \<Rightarrow> [] | Some v \<Rightarrow> [(j, v)])"
proof (induction rs)
  case Nil
  then show ?case by simp
next
  case (Cons r rs)
  obtain k v where r: "r = (k, v)" by (cases r)
  show ?case
  proof (cases "k = j")
    case True
    with Cons.prems r have "j \<notin> fst ` set rs" by auto
    then have "filter (\<lambda>r. fst r = j) rs = []" by (auto simp add: filter_empty_conv)
    with True r show ?thesis by simp
  next
    case False
    with Cons r show ?thesis by simp
  qed
qed

lemma left_rows_unique:
  assumes "distinct (map fst rs)"
  shows "left_rows on w ls rs =
         map (\<lambda>(k, vs). (k, vs @ (case map_of rs (on k) of None \<Rightarrow> replicate w NA | Some m \<Rightarrow> m))) ls"
proof -
  have "\<And>k vs. (case filter (\<lambda>r. fst r = on k) rs of
                    [] \<Rightarrow> [(k, vs @ replicate w NA)]
                  | m # ms \<Rightarrow> map (\<lambda>r. (k, vs @ snd r)) (m # ms))
        = [(k, vs @ (case map_of rs (on k) of None \<Rightarrow> replicate w NA | Some m \<Rightarrow> m))]"
    using filter_unique_key [OF assms] by (simp split: option.splits)
  then show ?thesis
    unfolding left_rows_def by (induction ls) (simp_all add: case_prod_beta)
qed

lemma join_aux_rows:
  assumes "aux_unique a" and "join_aux data a = Inr out"
  shows "rows out = map (\<lambda>(k, vs). (k, vs @ aux_cells a k)) (rows data)"
proof (cases a)
  case (ByVisit other)
  with assms show ?thesis
    by (auto simp add: merge_left_def left_rows_unique)
next
  case (BySubject other)
  with assms show ?thesis
    by (auto simp add: join_left_def left_rows_unique split: if_splits)
qed

lemma join_all_rows:
  assumes "list_all aux_unique auxs" and "join_all data auxs = Inr out"
  shows "rows out = map (\<lambda>(k, vs). (k, vs @ concat (map (\<lambda>a. aux_cells a k) auxs))) (rows data)"
  using assms
proof (induction auxs arbitrary: data)
  case Nil
  then show ?case by (simp add: case_prod_beta)
next
  case (Cons a auxs)
  from Cons.prems(2) obtain mid where
    mid: "join_aux data a = Inr mid" and rest: "join_all mid auxs = Inr out"
    by (auto simp add: and_then_def split: sum.splits)
  from Cons.prems(1) have ua: "aux_unique a" and us: "list_all aux_unique auxs" by simp_all
  have "rows mid = map (\<lambda>(k, vs). (k, vs @ aux_cells a k)) (rows data)"
    using ua mid by (rule join_aux_rows)
  moreover have "rows out =
      map (\<lambda>(k, vs). (k, vs @ concat (map (\<lambda>a. aux_cells a k) auxs))) (rows mid)"
    using us rest by (rule Cons.IH)
  ultimately show ?case by (simp add: case_prod_beta)
qed

lemma join_all_prefix:
  "join_all data (xs @ ys) = Inr out \<Longrightarrow> \<exists>mid. join_all data xs = Inr mid"
proof (induction xs arbitrary: data)
  case Nil
  then show ?case by simp
next
  case (Cons a xs)
  then show ?case by (auto simp add: and_then_def split: sum.splits)
qed


lemma map_of_unmatched: "k \<notin> fst ` set rs \<Longrightarrow> map_of rs k = None"
  by (simp add: map_of_eq_None_iff)

lemma join_all_keys:
  assumes "list_all aux_unique auxs" and "join_all data auxs = Inr out"
  shows "map fst (rows out) = map fst (rows data)"
  using join_all_rows [OF assms] by (simp add: case_prod_beta comp_def)

text \<open>
  C3: for every sequence of merges and joins of auxiliary frames with unique keys onto
  the base table that runs to its end, the result has the rows of the base table, in
  their order and number, each extended by the cells of every auxiliary frame for its
  key; the same holds after every join of the sequence; and an auxiliary frame with no
  row for a key gives a missing value in each of its columns.  The joins of the script
  are such a sequence, so its joined table has the keys of the base table.
\<close>

theorem left_joins_preserve_rows:
  "(list_all aux_unique auxs \<and> join_all data auxs = Inr out \<longrightarrow>
      length (rows out) = length (rows data) \<and>
      map fst (rows out) = map fst (rows data) \<and>
      rows out = map (\<lambda>(k, vs). (k, vs @ concat (map (\<lambda>a. aux_cells a k) auxs))) (rows data) \<and>
      (\<forall>n. \<exists>mid. join_all data (take n auxs) = Inr mid \<and>
                  map fst (rows mid) = map fst (rows data))) \<and>
   (\<not> aux_matched a k \<longrightarrow> aux_cells a k = replicate (aux_width a) NA) \<and>
   (assemble tadpole adasscores ptdemog fhq tomm40 = Inr joined \<longrightarrow>
      map fst (rows joined) = map fst (rows tadpole))"
proof (intro conjI impI allI)
  assume h: "list_all aux_unique auxs \<and> join_all data auxs = Inr out"
  then have u: "list_all aux_unique auxs" and j: "join_all data auxs = Inr out" by simp_all
  show k: "map fst (rows out) = map fst (rows data)" using u j by (rule join_all_keys)
  show "length (rows out) = length (rows data)"
    using arg_cong [OF k, of length] by simp
  show "rows out = map (\<lambda>(k, vs). (k, vs @ concat (map (\<lambda>a. aux_cells a k) auxs))) (rows data)"
    using u j by (rule join_all_rows)
  fix n
  have "join_all data (take n auxs @ drop n auxs) = Inr out" using j by simp
  then obtain mid where m: "join_all data (take n auxs) = Inr mid"
    using join_all_prefix by blast
  have "list_all aux_unique (take n auxs)"
    using u by (auto simp add: list_all_iff dest: in_set_takeD)
  then have "map fst (rows mid) = map fst (rows data)" using m by (rule join_all_keys)
  with m show "\<exists>mid. join_all data (take n auxs) = Inr mid \<and>
                  map fst (rows mid) = map fst (rows data)" by blast
next
  assume "\<not> aux_matched a k"
  then show "aux_cells a k = replicate (aux_width a) NA"
    by (cases a) (simp_all add: map_of_unmatched)
next
  assume "assemble tadpole adasscores ptdemog fhq tomm40 = Inr joined"
  from assemble_steps [OF this] obtain a d f t where
    s: "load_adas adasscores = Inr a" "load_demo ptdemog = Inr d" "load_fam fhq = Inr f"
       "load_tom tomm40 = Inr t"
       "join_all tadpole [ByVisit a, BySubject d, BySubject f, BySubject t] = Inr joined"
    by blast
  have "distinct (map fst (rows a))" using load_adas_ok [OF s(1)] by simp
  moreover have "distinct (map fst (rows d))"
    using s(2) by (auto simp add: load_demo_def set_index_ok)
  moreover have "distinct (map fst (rows f))"
    using s(3) by (auto simp add: load_fam_def set_index_ok)
  moreover have "distinct (map fst (rows t))"
    using s(4) by (auto simp add: load_tom_def set_index_ok)
  ultimately have "list_all aux_unique [ByVisit a, BySubject d, BySubject f, BySubject t]"
    by simp
  then show "map fst (rows joined) = map fst (rows tadpole)" using s(5) by (rule join_all_keys)
qed

theorem left_joins_preserve_rows_witness:
  "list_all aux_unique two_joins \<and>
   join_all base_table two_joins =
     Inr \<lparr>columns = [''AGE'', ''ADAS_Q1'', ''TOMM40_A1'', ''TOMM40_A2''],
          rows = [((1, ''bl''), [Num 70, NA, NA, NA]),
                  ((1, ''m06''), [Num 71, Num 4, NA, NA]),
                  ((2, ''bl''), [Num 65, NA, Num 23, Num 34])]\<rparr> \<and>
   map fst [((1::nat, ''bl''), [Num 70, NA, NA, NA]),
            ((1, ''m06''), [Num 71, Num 4, NA, NA]),
            ((2, ''bl''), [Num 65, NA, Num 23, Num 34])] = map fst (rows base_table) \<and>
   \<not> aux_matched (hd two_joins) (1, ''bl'') \<and>
   aux_cells (hd two_joins) (1, ''bl'') = [NA] \<and>
   (\<exists>joined. assemble base_table adas_table tied_demog fhq_table tomm_table = Inr joined \<and>
             map fst (rows joined) = map fst (rows base_table))"
proof -
  let ?out = "\<lparr>columns = [''AGE'', ''ADAS_Q1'', ''TOMM40_A1'', ''TOMM40_A2''],
          rows = [((1::nat, ''bl''), [Num 70, NA, NA, NA]),
                  ((1, ''m06''), [Num 71, Num 4, NA, NA]),
                  ((2, ''bl''), [Num 65, NA, Num 23, Num 34])]\<rparr>"
  have u: "list_all aux_unique two_joins" by code_simp
  have j: "join_all base_table two_joins = Inr ?out" by code_simp
  have m: "\<not> aux_matched (hd two_joins) (1, ''bl'')" by code_simp
  have w: "replicate (aux_width (hd two_joins)) NA = [NA]" by code_simp
  have "\<not> isl (assemble base_table adas_table tied_demog fhq_table tomm_table)"
    by code_simp
  then obtain joined where
    a: "assemble base_table adas_table tied_demog fhq_table tomm_table = Inr joined"
    by (cases "assemble base_table adas_table tied_demog fhq_table tomm_table") simp_all
  note T = left_joins_preserve_rows [of two_joins base_table ?out "hd two_joins" "(1, ''bl'')"
      base_table adas_table tied_demog fhq_table tomm_table joined]
  from T u j have "map fst (rows ?out) = map fst (rows base_table)" by blast
  then have k: "map fst [((1::nat, ''bl''), [Num 70, NA, NA, NA]),
            ((1, ''m06''), [Num 71, Num 4, NA, NA]),
            ((2, ''bl''), [Num 65, NA, Num 23, Num 34])] = map fst (rows base_table)"
    by simp
  from T m have "aux_cells (hd two_joins) (1, ''bl'') = replicate (aux_width (hd two_joins)) NA"
    by blast
  with w have c: "aux_cells (hd two_joins) (1, ''bl'') = [NA]" by simp
  from T a have "map fst (rows joined) = map fst (rows base_table)" by blast
  with a have e: "\<exists>joined. assemble base_table adas_table tied_demog fhq_table tomm_table = Inr joined \<and>
             map fst (rows joined) = map fst (rows base_table)" by blast
  from u j k m c e show ?thesis by (intro conjI)
qed

end
